theory Spec2Isabelle
  imports Main
begin

section \<open>JSON values and their serialisation\<close>

text \<open>
  Tool arguments, tool results and the bodies of tool-result messages are JSON values.
  \<open>JSON_stringify\<close> is the serialisation the source calls on them: strings are quoted
  with the escapes of the ECMAScript \<open>QuoteJSONString\<close> operation, object members keep
  their order, and no white space is inserted. Strings are byte strings here, and numbers
  are the integers a double holds exactly.
\<close>

datatype json =
    JNull
  | JBool bool
  | JNumber int
  | JString string
  | JArray "json list"
  | JObject "(string \<times> json) list"

definition digit_char :: "nat \<Rightarrow> char" where
  "digit_char n = ''0123456789abcdef'' ! (n mod 16)"

definition quote_char :: "char \<Rightarrow> string" where
  "quote_char c =
     (if c = CHR 0x22 then [CHR 0x5C, CHR 0x22]
      else if c = CHR 0x5C then [CHR 0x5C, CHR 0x5C]
      else if c = CHR 0x08 then [CHR 0x5C, CHR ''b'']
      else if c = CHR 0x0C then [CHR 0x5C, CHR ''f'']
      else if c = CHR 0x0A then [CHR 0x5C, CHR ''n'']
      else if c = CHR 0x0D then [CHR 0x5C, CHR ''r'']
      else if c = CHR 0x09 then [CHR 0x5C, CHR ''t'']
      else if (of_char c :: nat) < 32
        then [CHR 0x5C, CHR ''u'', CHR ''0'', CHR ''0'',
              digit_char (of_char c div 16), digit_char (of_char c mod 16)]
      else [c])"

definition quote :: "string \<Rightarrow> string" where
  "quote s = CHR 0x22 # concat (map quote_char s) @ [CHR 0x22]"

fun digits :: "nat \<Rightarrow> string" where
  "digits n = (if n < 10 then [digit_char n] else digits (n div 10) @ [digit_char (n mod 10)])"

definition number_text :: "int \<Rightarrow> string" where
  "number_text i = (if i < 0 then CHR ''-'' # digits (nat (- i)) else digits (nat i))"

fun join :: "string \<Rightarrow> string list \<Rightarrow> string" where
  "join sep [] = []"
| "join sep [x] = x"
| "join sep (x # y # ys) = x @ sep @ join sep (y # ys)"

fun JSON_stringify :: "json \<Rightarrow> string" where
  "JSON_stringify JNull = ''null''"
| "JSON_stringify (JBool b) = (if b then ''true'' else ''false'')"
| "JSON_stringify (JNumber i) = number_text i"
| "JSON_stringify (JString s) = quote s"
| "JSON_stringify (JArray xs) = ''['' @ join '','' (map JSON_stringify xs) @ '']''"
| "JSON_stringify (JObject kvs) =
     ''{'' @ join '','' (map (\<lambda>kv. quote (fst kv) @ '':'' @ JSON_stringify (snd kv)) kvs) @ ''}''"


section \<open>Messages\<close>

text \<open>
  A message content is a string or an array of content blocks; a block has a type tag and,
  when the tag is \<open>text\<close>, a text. An AI message (the class of the streamed
  \<open>AIMessageChunk\<close> too) carries its parsed tool calls. A tool-result message has a
  serialised content, the tool's name, the id of the call it answers and a status.
\<close>

datatype ContentBlock = ContentBlock (block_type: string) (block_text: string)

datatype MessageContent = StringContent string | BlockContent "ContentBlock list"

datatype ToolCall = ToolCall (call_name: string) (call_args: json) (call_id: "string option")

datatype ToolStatus = StatusSuccess | StatusError

datatype Message =
    is_HumanMessage: HumanMessage MessageContent
  | is_AIMessage: AIMessage MessageContent "ToolCall list"
  | is_ToolMessage: ToolMessage (tm_content: string) (tm_name: string) (tm_tool_call_id: string)
      (tm_status: ToolStatus)
  | is_OtherMessage: OtherMessage string MessageContent

record AIMessageChunk =
  content :: MessageContent
  tool_calls :: "ToolCall list"

definition new_AIMessageChunk :: "string \<Rightarrow> AIMessageChunk" where
  "new_AIMessageChunk s = \<lparr>content = StringContent s, tool_calls = []\<rparr>"

definition as_message :: "AIMessageChunk \<Rightarrow> Message" where
  "as_message c = AIMessage (content c) (tool_calls c)"

fun message_tool_calls :: "Message \<Rightarrow> ToolCall list" where
  "message_tool_calls (AIMessage c tcs) = tcs"
| "message_tool_calls m = []"


section \<open>Configuration\<close>

text \<open>
  What a tool raises is either an error object with a message (\<open>e instanceof Error\<close>;
  the schema's validation error is one) or any other value. The schema's \<open>parse\<close> and
  the tool's invocation both return the value or what they raise, as functions of their
  argument. The three shapes of a tool's runnable (a runnable object, a plain function, a
  map of named runnables wrapped by \<open>RunnableMap.from\<close>) are the three branches of
  the source; each carries what invoking it on the parsed arguments gives.
\<close>

datatype thrown = ErrorObject string | Raised json

datatype RunnableLike =
    IsRunnable "json \<Rightarrow> thrown + json"
  | IsFunction "json \<Rightarrow> thrown + json"
  | IsRunnableMap "json \<Rightarrow> thrown + json"

record AgentToolCall =
  schema :: "json \<Rightarrow> thrown + json"
  runnable :: RunnableLike

record AgentToolCallOptions =
  name :: string
  description :: string
  tool :: AgentToolCall

record BindToolsInput =
  bind_name :: string
  bind_description :: string
  bind_schema :: "json \<Rightarrow> thrown + json"

datatype tool_choice = ToolChoiceAny | ToolChoiceAuto

text \<open>
  The model capability: \<open>bindTools\<close> may be absent; when present it gives the bound model,
  whose \<open>stream\<close> maps the message list to the finite sequence of its fragments.
\<close>

type_synonym BoundLlm = "Message list \<Rightarrow> AIMessageChunk list"

datatype BaseChatModel =
  BaseChatModel (bindTools: "(BindToolsInput list \<Rightarrow> tool_choice \<Rightarrow> BoundLlm) option")

record RunnableAgentOptions =
  llm :: BaseChatModel
  tools :: "AgentToolCallOptions list"
  tool_response :: "AgentToolCallOptions option"
  maxToolCalls :: "int option"


section \<open>Tool dispatch\<close>

text \<open>
  The notifications to the tracing collaborator (tool start, end and error) are left out:
  the dispatcher is modelled as it runs without a run manager.
\<close>

definition createToolResponse :: "ToolCall \<Rightarrow> json \<Rightarrow> ToolStatus \<Rightarrow> Message" where
  "createToolResponse tool_call toolResponse status =
     ToolMessage (JSON_stringify toolResponse) (call_name tool_call)
       (case call_id tool_call of None \<Rightarrow> '''' | Some i \<Rightarrow> i) status"

definition not_found_text :: "string \<Rightarrow> string" where
  "not_found_text n = ''Tool '' @ [CHR 0x22] @ n @ [CHR 0x22] @ '' was not found.''"

definition findTool :: "RunnableAgentOptions \<Rightarrow> ToolCall \<Rightarrow> AgentToolCallOptions option" where
  "findTool options tool_call =
     find (\<lambda>t. name t = call_name tool_call)
       (tools options @ (case tool_response options of Some t \<Rightarrow> [t] | None \<Rightarrow> []))"

definition invokeTool :: "AgentToolCall \<Rightarrow> json \<Rightarrow> thrown + json" where
  "invokeTool t args =
     (case runnable t of
        IsRunnable f \<Rightarrow> (case schema t args of Inl e \<Rightarrow> Inl e | Inr parsed \<Rightarrow> f parsed)
      | IsFunction f \<Rightarrow> (case schema t args of Inl e \<Rightarrow> Inl e | Inr parsed \<Rightarrow> f parsed)
      | IsRunnableMap f \<Rightarrow> (case schema t args of Inl e \<Rightarrow> Inl e | Inr parsed \<Rightarrow> f parsed))"

definition errorResponse :: "thrown \<Rightarrow> json" where
  "errorResponse e = (case e of ErrorObject m \<Rightarrow> JObject [(''error'', JString m)] | Raised v \<Rightarrow> v)"

text \<open>The body of the function mapped over the tool calls: one call, one message.\<close>

definition runToolCall :: "RunnableAgentOptions \<Rightarrow> ToolCall \<Rightarrow> Message" where
  "runToolCall options tool_call =
     (case findTool options tool_call of
        None \<Rightarrow>
          createToolResponse tool_call
            (JObject [(''type'', JString ''text''),
                      (''text'', JString (JSON_stringify
                         (JObject [(''success'', JBool False),
                                   (''error'', JString (not_found_text (call_name tool_call)))])))])
            StatusError
      | Some found \<Rightarrow>
          (case invokeTool (tool found) (call_args tool_call) of
             Inl e \<Rightarrow> createToolResponse tool_call (errorResponse e) StatusError
           | Inr result \<Rightarrow> createToolResponse tool_call result StatusSuccess))"

text \<open>
  \<open>Promise.all\<close> over the mapped calls: the array of the results, at the positions of
  their promises.
\<close>

definition runToolCallMessage :: "RunnableAgentOptions \<Rightarrow> AIMessageChunk \<Rightarrow> Message list" where
  "runToolCallMessage options input = map (runToolCall options) (tool_calls input)"


section \<open>The agent's state\<close>

text \<open>
  Messages are objects: the histories, the snapshots and the model's input hold references
  to them, and \<open>_cleanHistory\<close> assigns to their \<open>content\<close>. The heap is the list
  of the objects allocated so far, an address is an index into it, and a new object goes
  to the end. The state an agent object works on is the heap, its private counter
  \<open>_callsLeft\<close>, and the contents of the history store of its options (\<open>None\<close> when no
  store is configured). Reading the store gives the list it holds at that moment; a store
  whose \<open>getMessages\<close> hands out its own array, which later appends would extend, is
  not modelled. The counter and the budget are integers: \<open>maxToolCalls\<close> is any number
  in the source, and the integral ones are considered.
  \<open>modelCalls\<close> is a log, not a field of the source: each call of the bound model's
  \<open>stream\<close> appends the message list it was given.
\<close>

type_synonym addr = nat

record AgentState =
  heap :: "Message list"
  callsLeft :: int
  history :: "addr list option"
  modelCalls :: "Message list list"

datatype failure = MaxToolCallsReached | ToolBindingUnsupported

text \<open>The constructor: \<open>this._callsLeft = options.maxToolCalls ?? 10\<close>.\<close>

definition new_RunnableAgent ::
  "RunnableAgentOptions \<Rightarrow> Message list \<Rightarrow> addr list option \<Rightarrow> AgentState" where
  "new_RunnableAgent options objects store =
     \<lparr>heap = objects,
      callsLeft = (case maxToolCalls options of None \<Rightarrow> 10 | Some n \<Rightarrow> n),
      history = store,
      modelCalls = []\<rparr>"

definition alloc :: "Message \<Rightarrow> AgentState \<Rightarrow> addr \<times> AgentState" where
  "alloc m st = (length (heap st), st\<lparr>heap := heap st @ [m]\<rparr>)"

definition alloc_all :: "Message list \<Rightarrow> AgentState \<Rightarrow> addr list \<times> AgentState" where
  "alloc_all ms st =
     ([length (heap st) ..< length (heap st) + length ms], st\<lparr>heap := heap st @ ms\<rparr>)"

definition history_addMessages :: "addr list \<Rightarrow> AgentState \<Rightarrow> AgentState" where
  "history_addMessages ms st =
     (case history st of None \<Rightarrow> st | Some h \<Rightarrow> st\<lparr>history := Some (h @ ms)\<rparr>)"


section \<open>Cleaning the history\<close>

text \<open>
  \<open>String.prototype.trim\<close> on byte strings: the white space is TAB, LF, VT, FF, CR and
  the space.
\<close>

definition is_space :: "char \<Rightarrow> bool" where
  "is_space c = (c \<in> set [CHR 0x09, CHR 0x0A, CHR 0x0B, CHR 0x0C, CHR 0x0D, CHR 0x20])"

definition trim :: "string \<Rightarrow> string" where
  "trim s = rev (dropWhile is_space (rev (dropWhile is_space s)))"

definition keep_block :: "ContentBlock \<Rightarrow> bool" where
  "keep_block b = (if block_type b = ''text'' then length (trim (block_text b)) > 0 else True)"

text \<open>What the callback of \<open>_cleanHistory\<close> assigns to one message object.\<close>

fun cleanMessage :: "Message \<Rightarrow> Message" where
  "cleanMessage (AIMessage (BlockContent bs) tcs) = AIMessage (BlockContent (filter keep_block bs)) tcs"
| "cleanMessage m = m"

text \<open>
  \<open>_cleanHistory\<close> filters the list with a callback that always answers true and, on the
  way, overwrites the content of each AI message it visits.
\<close>

definition cleanHistory :: "addr list \<Rightarrow> AgentState \<Rightarrow> addr list \<times> AgentState" where
  "cleanHistory hist st =
     (filter (\<lambda>a. True) hist,
      st\<lparr>heap := fold (\<lambda>a h. h[a := cleanMessage (h ! a)]) hist (heap st)\<rparr>)"


section \<open>One model turn\<close>

text \<open>
  The input of an invocation: a string (a new human message is built from it each time it
  is parsed), a list of messages, or a prompt value, whose \<open>toChatMessages\<close> gives its
  messages. The items of a list are taken to be message objects already, which
  \<open>coerceMessageLikeToMessage\<close> returns as they are.
\<close>

datatype BaseLanguageModelInput =
    StringInput string
  | MessageListInput "addr list"
  | PromptValueInput "addr list"

definition parseModelInputToBaseMessage ::
  "BaseLanguageModelInput \<Rightarrow> AgentState \<Rightarrow> addr list \<times> AgentState" where
  "parseModelInputToBaseMessage input st =
     (case input of
        StringInput s \<Rightarrow> (let (a, st') = alloc (HumanMessage (StringContent s)) st in ([a], st'))
      | MessageListInput items \<Rightarrow> (items, st)
      | PromptValueInput ms \<Rightarrow> (ms, st))"

definition boundTools :: "RunnableAgentOptions \<Rightarrow> BindToolsInput list" where
  "boundTools options =
     map (\<lambda>toolDef. \<lparr>bind_name = name toolDef, bind_description = description toolDef,
                      bind_schema = schema (tool toolDef)\<rparr>) (tools options)
     @ (case tool_response options of
          Some r \<Rightarrow> [\<lparr>bind_name = name r, bind_description = description r,
                       bind_schema = schema (tool r)\<rparr>]
        | None \<Rightarrow> [])"

definition runToolCallingAgent ::
  "RunnableAgentOptions \<Rightarrow> addr list \<Rightarrow> AgentState
     \<Rightarrow> (failure + AIMessageChunk list) \<times> AgentState" where
  "runToolCallingAgent options input st =
     (if callsLeft st = 0 then (Inl MaxToolCallsReached, st)
      else
        let st1 = st\<lparr>callsLeft := callsLeft st - 1\<rparr> in
        case bindTools (llm options) of
          None \<Rightarrow> (Inl ToolBindingUnsupported, st1)
        | Some bind \<Rightarrow>
            let boundLlm = bind (boundTools options)
                  (case tool_response options of Some r \<Rightarrow> ToolChoiceAny | None \<Rightarrow> ToolChoiceAuto);
                (cleaned, st2) = cleanHistory input st1;
                messages = map (\<lambda>a. heap st2 ! a) cleaned
            in (Inr (boundLlm messages), st2\<lparr>modelCalls := modelCalls st2 @ [messages]\<rparr>))"

text \<open>
  The \<open>for await\<close> over the model's fragments. \<open>cat\<close> is the library's
  \<open>AIMessageChunk.concat\<close>, which builds a new object from the accumulated message and
  the fragment and recomputes its parsed \<open>tool_calls\<close>. The result is the snapshots
  yielded, in order, the last accumulated message with its address, and the flag.
\<close>

type_synonym chunk_concat = "AIMessageChunk \<Rightarrow> AIMessageChunk \<Rightarrow> AIMessageChunk"

fun streamChunks ::
  "chunk_concat \<Rightarrow> addr list \<Rightarrow> AIMessageChunk list \<Rightarrow> AIMessageChunk \<Rightarrow> addr \<Rightarrow> bool
     \<Rightarrow> AgentState \<Rightarrow> addr list list \<times> AIMessageChunk \<times> addr \<times> bool \<times> AgentState" where
  "streamChunks cat sessionMessages [] agentResponse a isToolCall st =
     ([], agentResponse, a, isToolCall, st)"
| "streamChunks cat sessionMessages (chunk # rest) agentResponse a isToolCall st =
     (let merged = cat agentResponse chunk;
          (a', st') = alloc (as_message merged) st;
          isToolCall' = (if \<not> isToolCall \<and> tool_calls merged \<noteq> [] then True else isToolCall);
          emitted =
            (if isToolCall'
             then (if tool_calls merged \<noteq> [] then [sessionMessages @ [a']] else [])
             else [sessionMessages @ [a']]);
          (ys, r) = streamChunks cat sessionMessages rest merged a' isToolCall' st'
      in (emitted @ ys, r))"

text \<open>
  One pass through the body of \<open>while (true)\<close>: the pass throws, leaves the loop with
  the session history, or goes round again with it.
\<close>

datatype step = Threw failure | Stopped "addr list" | Looping "addr list"

definition stopToolCalled :: "RunnableAgentOptions \<Rightarrow> AIMessageChunk \<Rightarrow> bool" where
  "stopToolCalled options agentResponse =
     (case tool_response options of
        Some r \<Rightarrow> list_ex (\<lambda>tool_call. call_name tool_call = name r) (tool_calls agentResponse)
      | None \<Rightarrow> False)"

definition turn ::
  "chunk_concat \<Rightarrow> RunnableAgentOptions \<Rightarrow> addr list \<Rightarrow> BaseLanguageModelInput \<Rightarrow> addr list
     \<Rightarrow> AgentState \<Rightarrow> addr list list \<times> step \<times> AgentState" where
  "turn cat options initialHistory input sessionMessages st =
     (let (inputMessages, st1) = parseModelInputToBaseMessage input st;
          messages = initialHistory @ inputMessages @ sessionMessages
      in case runToolCallingAgent options messages st1 of
           (Inl e, st2) \<Rightarrow> ([], Threw e, st2)
         | (Inr agentStream, st2) \<Rightarrow>
             let (a0, st3) = alloc (as_message (new_AIMessageChunk '''')) st2;
                 (ys, agentResponse, a, isToolCall, st4) =
                    streamChunks cat sessionMessages agentStream (new_AIMessageChunk '''') a0 False st3;
                 st5 = history_addMessages [a] st4;
                 session1 = sessionMessages @ [a]
             in if isToolCall then
                  let toolResponse = runToolCallMessage options agentResponse;
                      (refs, st6) = alloc_all toolResponse st5;
                      st7 = history_addMessages refs st6;
                      session2 = session1 @ refs
                  in if stopToolCalled options agentResponse
                     then (ys, Stopped session2, st7)
                     else (ys, Looping session2, st7)
                else (ys, Stopped session1, st5))"


section \<open>The loop, the stream and invoke\<close>

text \<open>
  The generator of \<open>stream\<close>. Its result is the sequence of the snapshots it yields, how
  it ends (it throws, or it returns the session history, a value that a consumer of the
  stream does not see) and the state it leaves. The loop need not end, hence the option.
\<close>

partial_function (option) agentLoop ::
  "chunk_concat \<Rightarrow> RunnableAgentOptions \<Rightarrow> addr list \<Rightarrow> BaseLanguageModelInput \<Rightarrow> addr list
     \<Rightarrow> addr list list \<Rightarrow> AgentState
     \<Rightarrow> (addr list list \<times> (failure + addr list) \<times> AgentState) option" where
  "agentLoop cat options initialHistory input sessionMessages yielded st =
     (case turn cat options initialHistory input sessionMessages st of
        (ys, Threw e, st') \<Rightarrow> Some (yielded @ ys, Inl e, st')
      | (ys, Stopped session, st') \<Rightarrow> Some (yielded @ ys, Inr session, st')
      | (ys, Looping session, st') \<Rightarrow>
          agentLoop cat options initialHistory input session (yielded @ ys) st')"

definition stream ::
  "chunk_concat \<Rightarrow> RunnableAgentOptions \<Rightarrow> BaseLanguageModelInput \<Rightarrow> AgentState
     \<Rightarrow> (addr list list \<times> (failure + addr list) \<times> AgentState) option" where
  "stream cat options input st =
     (let initialHistory = (case history st of Some h \<Rightarrow> h | None \<Rightarrow> []);
          (inputMessages, st1) = parseModelInputToBaseMessage input st;
          st2 = history_addMessages inputMessages st1
      in agentLoop cat options initialHistory input [] [] st2)"

text \<open>
  \<open>invoke\<close> drains the stream and keeps the last element; an exception of the generator
  is its own.
\<close>

definition invoke ::
  "chunk_concat \<Rightarrow> RunnableAgentOptions \<Rightarrow> string \<Rightarrow> AgentState
     \<Rightarrow> ((failure + addr list) \<times> AgentState) option" where
  "invoke cat options input st =
     (case stream cat options (StringInput input) st of
        None \<Rightarrow> None
      | Some (ys, Inl e, st') \<Rightarrow> Some (Inl e, st')
      | Some (ys, Inr session, st') \<Rightarrow> Some (Inr (fold (\<lambda>chunk response. chunk) ys []), st'))"


section \<open>Notions used in the statements\<close>

text \<open>The tools a call's name is resolved against: the tools, then the stop tool.\<close>

definition configuredTools :: "RunnableAgentOptions \<Rightarrow> AgentToolCallOptions list" where
  "configuredTools options =
     tools options @ (case tool_response options of Some t \<Rightarrow> [t] | None \<Rightarrow> [])"


definition toolChoice :: "RunnableAgentOptions \<Rightarrow> tool_choice" where
  "toolChoice options =
     (case tool_response options of Some r \<Rightarrow> ToolChoiceAny | None \<Rightarrow> ToolChoiceAuto)"

text \<open>The heap \<open>_cleanHistory\<close> leaves.\<close>

definition cleaned_heap :: "addr list \<Rightarrow> Message list \<Rightarrow> Message list" where
  "cleaned_heap hist h = fold (\<lambda>a h. h[a := cleanMessage (h ! a)]) hist h"


text \<open>
  The value of the flag \<open>isToolCall\<close> after the fragments: the message accumulated up to
  some fragment had a tool call.
\<close>

fun detected :: "chunk_concat \<Rightarrow> AIMessageChunk \<Rightarrow> AIMessageChunk list \<Rightarrow> bool" where
  "detected cat acc [] = False"
| "detected cat acc (c # cs) = (tool_calls (cat acc c) \<noteq> [] \<or> detected cat (cat acc c) cs)"

text \<open>
  What the model call of a turn gives: the failure \<open>runToolCallingAgent\<close> throws, or the
  fragments of the model's answer.
\<close>

definition modelAnswer ::
  "RunnableAgentOptions \<Rightarrow> addr list \<Rightarrow> BaseLanguageModelInput \<Rightarrow> addr list \<Rightarrow> AgentState
     \<Rightarrow> failure + AIMessageChunk list" where
  "modelAnswer options init input session st =
     (let (inputMessages, st1) = parseModelInputToBaseMessage input st
      in fst (runToolCallingAgent options (init @ inputMessages @ session) st1))"

text \<open>
  A list of messages is in turn order when it is a sequence of turns, each an AI message
  followed by the results of exactly its tool calls, in their order.
\<close>

function turn_ordered :: "RunnableAgentOptions \<Rightarrow> Message list \<Rightarrow> bool" where
  "turn_ordered options [] = True"
| "turn_ordered options (m # ms) =
     (case m of
        AIMessage c tcs \<Rightarrow>
          take (length tcs) ms = map (runToolCall options) tcs \<and>
          turn_ordered options (drop (length tcs) ms)
      | _ \<Rightarrow> False)"
  by pat_completeness auto
termination
  by (relation "measure (\<lambda>(options, ms). length ms)") auto

text \<open>
  The session history and the state at the head of the loop once \<open>n\<close> turns have gone
  round, and the \<open>n + 1\<close>-st turn when it completes: the session history before it, the
  one after it and the state it leaves.
\<close>

fun sessionAfter ::
  "chunk_concat \<Rightarrow> RunnableAgentOptions \<Rightarrow> addr list \<Rightarrow> BaseLanguageModelInput \<Rightarrow> AgentState
     \<Rightarrow> nat \<Rightarrow> (addr list \<times> AgentState) option" where
  "sessionAfter cat options init input st0 0 = Some ([], st0)"
| "sessionAfter cat options init input st0 (Suc n) =
     (case sessionAfter cat options init input st0 n of
        None \<Rightarrow> None
      | Some (session, st) \<Rightarrow>
          (case turn cat options init input session st of
             (ys, Looping session', st') \<Rightarrow> Some (session', st')
           | (ys, r, st') \<Rightarrow> None))"

definition completedTurn ::
  "chunk_concat \<Rightarrow> RunnableAgentOptions \<Rightarrow> addr list \<Rightarrow> BaseLanguageModelInput \<Rightarrow> AgentState
     \<Rightarrow> nat \<Rightarrow> (addr list \<times> addr list \<times> AgentState) option" where
  "completedTurn cat options init input st0 n =
     (case sessionAfter cat options init input st0 n of
        None \<Rightarrow> None
      | Some (session, st) \<Rightarrow>
          (case turn cat options init input session st of
             (ys, Threw e, st') \<Rightarrow> None
           | (ys, Stopped session', st') \<Rightarrow> Some (session, session', st')
           | (ys, Looping session', st') \<Rightarrow> Some (session, session', st')))"

definition session_ok :: "RunnableAgentOptions \<Rightarrow> addr list \<Rightarrow> AgentState \<Rightarrow> bool" where
  "session_ok options session st \<longleftrightarrow>
     (\<forall>a \<in> set session. a < length (heap st)) \<and>
     turn_ordered options (map ((!) (heap st)) session)"



section \<open>Example configurations\<close>

text \<open>
  An instance of the library's \<open>concat\<close> for the examples. The contents are merged. The
  library recomputes the parsed \<open>tool_calls\<close> of the accumulated message from the
  argument text received so far, and gives none while that text does not parse (the comment
  in \<open>stream\<close>: "as it is streaming, tool_call can go undefined, because it is building
  the args"); here each fragment carries the list the accumulated message has after it.
\<close>

fun merge_content :: "MessageContent \<Rightarrow> MessageContent \<Rightarrow> MessageContent" where
  "merge_content (StringContent a) (StringContent b) = StringContent (a @ b)"
| "merge_content (StringContent a) (BlockContent bs) = BlockContent (ContentBlock ''text'' a # bs)"
| "merge_content (BlockContent as) (StringContent b) = BlockContent (as @ [ContentBlock ''text'' b])"
| "merge_content (BlockContent as) (BlockContent bs) = BlockContent (as @ bs)"

definition concat_reparsed :: chunk_concat where
  "concat_reparsed acc chunk =
     \<lparr>content = merge_content (content acc) (content chunk), tool_calls = tool_calls chunk\<rparr>"

definition text_fragment :: "string \<Rightarrow> AIMessageChunk" where
  "text_fragment s = \<lparr>content = StringContent s, tool_calls = []\<rparr>"

definition call_fragment :: "ToolCall list \<Rightarrow> AIMessageChunk" where
  "call_fragment tcs = \<lparr>content = StringContent '''', tool_calls = tcs\<rparr>"

text \<open>
  A model that answers from a script: its answer to a message list with \<open>k\<close> AI messages
  is the \<open>k\<close>-th entry, and no fragment beyond the script.
\<close>

definition scripted_model :: "AIMessageChunk list list \<Rightarrow> BaseChatModel" where
  "scripted_model script =
     BaseChatModel (Some (\<lambda>tools choice messages.
       (let k = length (filter is_AIMessage messages)
        in if k < length script then script ! k else [])))"

definition object_schema :: "json \<Rightarrow> thrown + json" where
  "object_schema v = (case v of JObject kvs \<Rightarrow> Inr v | _ \<Rightarrow> Inl (ErrorObject ''Expected object''))"

definition echo_tool :: AgentToolCallOptions where
  "echo_tool = \<lparr>name = ''echo'', description = ''Echo the arguments'',
      tool = \<lparr>schema = object_schema,
              runnable = IsFunction (\<lambda>args. Inr (JObject [(''echoed'', args)]))\<rparr>\<rparr>"

definition fail_tool :: AgentToolCallOptions where
  "fail_tool = \<lparr>name = ''fail'', description = ''Always raises'',
      tool = \<lparr>schema = object_schema,
              runnable = IsRunnable (\<lambda>args. Inl (ErrorObject ''boom''))\<rparr>\<rparr>"

definition stop_tool :: AgentToolCallOptions where
  "stop_tool = \<lparr>name = ''stop'', description = ''End the run'',
      tool = \<lparr>schema = object_schema,
              runnable = IsFunction (\<lambda>args. Inr (JObject [(''done'', JBool True)]))\<rparr>\<rparr>"

definition echo_call :: ToolCall where
  "echo_call = ToolCall ''echo'' (JObject [(''text'', JString ''ping'')]) (Some ''call_1'')"

definition stop_call :: ToolCall where
  "stop_call = ToolCall ''stop'' (JObject []) (Some ''call_2'')"

definition fail_call :: ToolCall where
  "fail_call = ToolCall ''fail'' (JObject []) (Some ''call_3'')"

definition unknown_call :: ToolCall where
  "unknown_call = ToolCall ''nope'' (JObject []) (Some ''call_4'')"

definition invalid_call :: ToolCall where
  "invalid_call = ToolCall ''echo'' (JString ''ping'') (Some ''call_5'')"

definition example_agent ::
  "AIMessageChunk list list \<Rightarrow> AgentToolCallOptions option \<Rightarrow> int option \<Rightarrow> RunnableAgentOptions" where
  "example_agent script stop budget =
     \<lparr>llm = scripted_model script, tools = [echo_tool, fail_tool], tool_response = stop,
      maxToolCalls = budget\<rparr>"

definition dispatching :: RunnableAgentOptions where
  "dispatching = example_agent [] None None"



definition stopping :: RunnableAgentOptions where
  "stopping = example_agent [[call_fragment [echo_call, stop_call]]] (Some stop_tool) None"

definition flickering :: RunnableAgentOptions where
  "flickering = example_agent [[call_fragment [echo_call], call_fragment []]] None None"


definition two_turns :: RunnableAgentOptions where
  "two_turns = example_agent [[call_fragment [echo_call]], [text_fragment ''done'']] None (Some 3)"





lemmas example_defs =
  example_agent_def scripted_model_def text_fragment_def call_fragment_def echo_call_def
  stop_call_def fail_call_def unknown_call_def invalid_call_def echo_tool_def fail_tool_def
  stop_tool_def object_schema_def concat_reparsed_def

lemmas loop_defs =
  invoke_def stream_def turn_def new_RunnableAgent_def parseModelInputToBaseMessage_def alloc_def
  alloc_all_def history_addMessages_def runToolCallingAgent_def cleanHistory_def boundTools_def
  new_AIMessageChunk_def as_message_def stopToolCalled_def runToolCallMessage_def runToolCall_def
  findTool_def invokeTool_def createToolResponse_def errorResponse_def Let_def


section \<open>Allocation, the history store and the cleaning\<close>

lemma alloc_fields [simp]:
  "fst (alloc m st) = length (heap st)"
  "heap (snd (alloc m st)) = heap st @ [m]"
  "callsLeft (snd (alloc m st)) = callsLeft st"
  "history (snd (alloc m st)) = history st"
  "modelCalls (snd (alloc m st)) = modelCalls st"
  by (simp_all add: alloc_def)

lemma alloc_all_fields [simp]:
  "fst (alloc_all ms st) = [length (heap st) ..< length (heap st) + length ms]"
  "heap (snd (alloc_all ms st)) = heap st @ ms"
  "callsLeft (snd (alloc_all ms st)) = callsLeft st"
  "history (snd (alloc_all ms st)) = history st"
  "modelCalls (snd (alloc_all ms st)) = modelCalls st"
  by (simp_all add: alloc_all_def)

lemma history_addMessages_fields [simp]:
  "heap (history_addMessages ms st) = heap st"
  "callsLeft (history_addMessages ms st) = callsLeft st"
  "modelCalls (history_addMessages ms st) = modelCalls st"
  "history (history_addMessages ms st) = map_option (\<lambda>h. h @ ms) (history st)"
  by (simp_all add: history_addMessages_def split: option.splits)

lemma parse_fields:
  "parseModelInputToBaseMessage input st = (ms, st') \<Longrightarrow>
     callsLeft st' = callsLeft st \<and> history st' = history st \<and> modelCalls st' = modelCalls st
     \<and> (\<exists>new. heap st' = heap st @ new)"
  by (auto simp: parseModelInputToBaseMessage_def alloc_def split: BaseLanguageModelInput.splits)

lemma map_nth_appended:
  "map ((!) (xs @ ys)) [length xs ..< length xs + length ys] = ys"
proof (rule nth_equalityI)
  show "length (map ((!) (xs @ ys)) [length xs ..< length xs + length ys]) = length ys" by simp
next
  fix i assume "i < length (map ((!) (xs @ ys)) [length xs ..< length xs + length ys])"
  then have "i < length ys" by simp
  then show "map ((!) (xs @ ys)) [length xs ..< length xs + length ys] ! i = ys ! i"
    by (simp add: nth_append)
qed

lemma cleanMessage_idem [simp]: "cleanMessage (cleanMessage m) = cleanMessage m"
  by (induction m rule: cleanMessage.induct) simp_all

lemma cleanMessage_kind [simp]:
  "is_AIMessage (cleanMessage m) = is_AIMessage m"
  "is_ToolMessage (cleanMessage m) = is_ToolMessage m"
  "message_tool_calls (cleanMessage m) = message_tool_calls m"
  by (induction m rule: cleanMessage.induct) simp_all

lemma cleanMessage_ToolMessage: "is_ToolMessage m \<Longrightarrow> cleanMessage m = m"
  by (cases m) simp_all




lemma cleaned_heap_simps [simp]:
  "cleaned_heap [] h = h"
  "cleaned_heap (a # as) h = cleaned_heap as (h[a := cleanMessage (h ! a)])"
  by (simp_all add: cleaned_heap_def)

lemma length_cleaned_heap [simp]: "length (cleaned_heap hist h) = length h"
  by (induction hist arbitrary: h) simp_all

lemma nth_cleaned_heap:
  "a < length h \<Longrightarrow>
     cleaned_heap hist h ! a = (if a \<in> set hist then cleanMessage (h ! a) else h ! a)"
proof (induction hist arbitrary: h)
  case Nil
  then show ?case by simp
next
  case (Cons b bs)
  let ?h = "h[b := cleanMessage (h ! b)]"
  have step: "?h ! a = (if a = b then cleanMessage (h ! a) else h ! a)"
    using Cons.prems by (simp add: nth_list_update)
  have "cleaned_heap bs ?h ! a = (if a \<in> set bs then cleanMessage (?h ! a) else ?h ! a)"
    using Cons.IH[of ?h] Cons.prems by simp
  then show ?case
    unfolding cleaned_heap_simps step by auto
qed

lemma cleanHistory_eq:
  "cleanHistory hist st = (hist, st\<lparr>heap := cleaned_heap hist (heap st)\<rparr>)"
  by (simp add: cleanHistory_def cleaned_heap_def)


section \<open>The model call\<close>

lemma runToolCallingAgent_exhausted:
  "callsLeft st = 0 \<Longrightarrow> runToolCallingAgent options input st = (Inl MaxToolCallsReached, st)"
  by (simp add: runToolCallingAgent_def)

lemma runToolCallingAgent_unbound:
  "callsLeft st \<noteq> 0 \<Longrightarrow> bindTools (llm options) = None \<Longrightarrow>
     runToolCallingAgent options input st =
       (Inl ToolBindingUnsupported, st\<lparr>callsLeft := callsLeft st - 1\<rparr>)"
  by (simp add: runToolCallingAgent_def)

lemma runToolCallingAgent_bound:
  "callsLeft st \<noteq> 0 \<Longrightarrow> bindTools (llm options) = Some bind \<Longrightarrow>
     runToolCallingAgent options input st =
       (Inr (bind (boundTools options) (toolChoice options)
               (map (\<lambda>a. cleaned_heap input (heap st) ! a) input)),
        st\<lparr>heap := cleaned_heap input (heap st), callsLeft := callsLeft st - 1,
           modelCalls := modelCalls st @ [map (\<lambda>a. cleaned_heap input (heap st) ! a) input]\<rparr>)"
  by (simp add: runToolCallingAgent_def cleanHistory_eq toolChoice_def Let_def)

lemma runToolCallingAgent_cases:
  obtains (exhausted) "callsLeft st = 0"
      "runToolCallingAgent options input st = (Inl MaxToolCallsReached, st)"
  | (unbound) "callsLeft st \<noteq> 0" "bindTools (llm options) = None"
      "runToolCallingAgent options input st =
         (Inl ToolBindingUnsupported, st\<lparr>callsLeft := callsLeft st - 1\<rparr>)"
  | (bound) bind where "callsLeft st \<noteq> 0" "bindTools (llm options) = Some bind"
      "runToolCallingAgent options input st =
       (Inr (bind (boundTools options) (toolChoice options)
               (map (\<lambda>a. cleaned_heap input (heap st) ! a) input)),
        st\<lparr>heap := cleaned_heap input (heap st), callsLeft := callsLeft st - 1,
           modelCalls := modelCalls st @ [map (\<lambda>a. cleaned_heap input (heap st) ! a) input]\<rparr>)"
  using runToolCallingAgent_exhausted runToolCallingAgent_unbound runToolCallingAgent_bound
  by (cases "callsLeft st = 0"; cases "bindTools (llm options)") auto


section \<open>The fragments of one answer\<close>

lemma detected_iff:
  "detected cat acc chunks \<longleftrightarrow>
     (\<exists>k < length chunks. tool_calls (foldl cat acc (take (Suc k) chunks)) \<noteq> [])"
proof (induction chunks arbitrary: acc)
  case Nil
  then show ?case by simp
next
  case (Cons c cs)
  show ?case
  proof
    assume "detected cat acc (c # cs)"
    then consider "tool_calls (cat acc c) \<noteq> []" | "detected cat (cat acc c) cs" by auto
    then show "\<exists>k < length (c # cs). tool_calls (foldl cat acc (take (Suc k) (c # cs))) \<noteq> []"
    proof cases
      case 1
      then have "tool_calls (foldl cat acc (take (Suc 0) (c # cs))) \<noteq> []" by simp
      then show ?thesis by blast
    next
      case 2
      then obtain k where "k < length cs" "tool_calls (foldl cat (cat acc c) (take (Suc k) cs)) \<noteq> []"
        using Cons.IH by blast
      then have "Suc k < length (c # cs)"
        "tool_calls (foldl cat acc (take (Suc (Suc k)) (c # cs))) \<noteq> []" by simp_all
      then show ?thesis by blast
    qed
  next
    assume "\<exists>k < length (c # cs). tool_calls (foldl cat acc (take (Suc k) (c # cs))) \<noteq> []"
    then obtain k where k: "k < length (c # cs)"
      "tool_calls (foldl cat acc (take (Suc k) (c # cs))) \<noteq> []" by blast
    show "detected cat acc (c # cs)"
    proof (cases k)
      case 0
      with k show ?thesis by simp
    next
      case (Suc j)
      with k have "j < length cs" "tool_calls (foldl cat (cat acc c) (take (Suc j) cs)) \<noteq> []"
        by simp_all
      then have "detected cat (cat acc c) cs" using Cons.IH by blast
      then show ?thesis by simp
    qed
  qed
qed

lemma not_detected_no_calls:
  "\<not> detected cat acc chunks \<Longrightarrow> tool_calls acc = [] \<Longrightarrow> tool_calls (foldl cat acc chunks) = []"
  by (induction chunks arbitrary: acc) simp_all

lemma streamChunks_result:
  "streamChunks cat sess chunks acc a flag st = (ys, acc', a', flag', st') \<Longrightarrow>
     acc' = foldl cat acc chunks \<and> flag' = (flag \<or> detected cat acc chunks) \<and>
     callsLeft st' = callsLeft st \<and> history st' = history st \<and> modelCalls st' = modelCalls st \<and>
     (\<exists>new. heap st' = heap st @ new) \<and>
     (chunks = [] \<longrightarrow> a' = a \<and> st' = st) \<and>
     (chunks \<noteq> [] \<longrightarrow> length (heap st) \<le> a' \<and> a' < length (heap st') \<and> heap st' ! a' = as_message acc')"
proof (induction chunks arbitrary: acc a flag st ys)
  case Nil
  then show ?case by simp
next
  case (Cons chunk rest)
  let ?m = "cat acc chunk"
  let ?f = "if \<not> flag \<and> tool_calls ?m \<noteq> [] then True else flag"
  let ?st = "snd (alloc (as_message ?m) st)"
  obtain ys2 where rec: "streamChunks cat sess rest ?m (length (heap st)) ?f ?st
       = (ys2, acc', a', flag', st')"
    using Cons.prems by (auto simp: Let_def alloc_def split: prod.splits)
  note IH = Cons.IH[OF rec]
  show ?case
  proof (cases "rest = []")
    case True
    with rec have "acc' = ?m \<and> a' = length (heap st) \<and> st' = ?st \<and> flag' = ?f" by auto
    then show ?thesis using True by auto
  next
    case False
    with IH show ?thesis
      by (auto simp: nth_append)
  qed
qed



lemma streamChunks_last:
  assumes "streamChunks cat sess chunks (new_AIMessageChunk '''') (length (heap st2)) False
         (snd (alloc (as_message (new_AIMessageChunk '''')) st2)) = (ys, acc', a, flag', st4)"
  shows "acc' = foldl cat (new_AIMessageChunk '''') chunks"
    and "flag' = detected cat (new_AIMessageChunk '''') chunks"
    and "length (heap st2) \<le> a" and "a < length (heap st4)"
    and "heap st4 ! a = as_message acc'"
    and "\<exists>new. heap st4 = heap st2 @ new"
    and "callsLeft st4 = callsLeft st2" and "history st4 = history st2"
    and "modelCalls st4 = modelCalls st2"
proof -
  note r = streamChunks_result[OF assms]
  show "acc' = foldl cat (new_AIMessageChunk '''') chunks"
    and "flag' = detected cat (new_AIMessageChunk '''') chunks"
    and "callsLeft st4 = callsLeft st2" and "history st4 = history st2"
    and "modelCalls st4 = modelCalls st2"
    using r by simp_all
  show "\<exists>new. heap st4 = heap st2 @ new" using r by auto
  show "length (heap st2) \<le> a" using r by (cases "chunks = []") auto
  show "a < length (heap st4)" using r by (cases "chunks = []") auto
  show "heap st4 ! a = as_message acc'" using r by (cases "chunks = []") auto
qed


section \<open>One turn\<close>

lemma turn_cases:
  assumes "turn cat options init input session st = (ys, r, st')"
  obtains
    (failed) e inputMessages st1 where
      "parseModelInputToBaseMessage input st = (inputMessages, st1)"
      "runToolCallingAgent options (init @ inputMessages @ session) st1 = (Inl e, st')"
      "r = Threw e" "ys = []"
  | (answered) inputMessages st1 agentStream st2 agentResponse a st4 where
      "parseModelInputToBaseMessage input st = (inputMessages, st1)"
      "runToolCallingAgent options (init @ inputMessages @ session) st1 = (Inr agentStream, st2)"
      "streamChunks cat session agentStream (new_AIMessageChunk '''') (length (heap st2)) False
         (snd (alloc (as_message (new_AIMessageChunk '''')) st2)) = (ys, agentResponse, a, False, st4)"
      "r = Stopped (session @ [a])"
      "st' = history_addMessages [a] st4"
  | (dispatched) inputMessages st1 agentStream st2 agentResponse a st4 refs where
      "parseModelInputToBaseMessage input st = (inputMessages, st1)"
      "runToolCallingAgent options (init @ inputMessages @ session) st1 = (Inr agentStream, st2)"
      "streamChunks cat session agentStream (new_AIMessageChunk '''') (length (heap st2)) False
         (snd (alloc (as_message (new_AIMessageChunk '''')) st2)) = (ys, agentResponse, a, True, st4)"
      "refs = [length (heap st4) ..< length (heap st4) + length (tool_calls agentResponse)]"
      "r = (if stopToolCalled options agentResponse
            then Stopped (session @ [a] @ refs) else Looping (session @ [a] @ refs))"
      "st' = history_addMessages refs
               (snd (alloc_all (runToolCallMessage options agentResponse)
                      (history_addMessages [a] st4)))"
proof -
  obtain inputMessages st1 where p: "parseModelInputToBaseMessage input st = (inputMessages, st1)"
    by fastforce
  obtain res st2 where m: "runToolCallingAgent options (init @ inputMessages @ session) st1 = (res, st2)"
    by fastforce
  show thesis
  proof (cases res)
    case (Inl e)
    with assms p m have "r = Threw e" "ys = []" "st' = st2"
      by (simp_all add: turn_def)
    with p m Inl show thesis by (intro failed[of inputMessages st1 e]) simp_all
  next
    case (Inr agentStream)
    with m have m': "runToolCallingAgent options (init @ inputMessages @ session) st1
        = (Inr agentStream, st2)" by simp
    obtain ys0 agentResponse a isToolCall st4 where s:
      "streamChunks cat session agentStream (new_AIMessageChunk '''') (length (heap st2)) False
         (snd (alloc (as_message (new_AIMessageChunk '''')) st2)) = (ys0, agentResponse, a, isToolCall, st4)"
      by (metis prod_cases5)
    show thesis
    proof (cases isToolCall)
      case False
      with assms p m' s have "ys = ys0" "r = Stopped (session @ [a])"
        "st' = history_addMessages [a] st4"
        by (simp_all add: turn_def alloc_def)
      with s False show thesis
        by (intro answered[OF p m', of agentResponse a st4]) simp_all
    next
      case True
      let ?refs = "[length (heap st4) ..< length (heap st4) + length (tool_calls agentResponse)]"
      from True assms p m' s have "ys = ys0"
        "r = (if stopToolCalled options agentResponse
            then Stopped (session @ [a] @ ?refs) else Looping (session @ [a] @ ?refs))"
        "st' = history_addMessages ?refs
               (snd (alloc_all (runToolCallMessage options agentResponse)
                      (history_addMessages [a] st4)))"
        by (simp_all add: turn_def alloc_def alloc_all_def runToolCallMessage_def Let_def
              split: if_splits)
      with s True show thesis
        by (intro dispatched[OF p m', of agentResponse a st4 ?refs]) simp_all
    qed
  qed
qed

lemma turn_effect:
  assumes "turn cat options init input session st = (ys, r, st')" and "\<forall>e. r \<noteq> Threw e"
  obtains inputMessages st1 agentStream st2 a refs where
    "parseModelInputToBaseMessage input st = (inputMessages, st1)"
    "runToolCallingAgent options (init @ inputMessages @ session) st1 = (Inr agentStream, st2)"
    "r = (if detected cat (new_AIMessageChunk '''') agentStream \<and>
             \<not> stopToolCalled options (foldl cat (new_AIMessageChunk '''') agentStream)
          then Looping (session @ a # refs) else Stopped (session @ a # refs))"
    "length (heap st2) \<le> a" "a < length (heap st')"
    "heap st' ! a = as_message (foldl cat (new_AIMessageChunk '''') agentStream)"
    "map ((!) (heap st')) refs =
       map (runToolCall options) (tool_calls (foldl cat (new_AIMessageChunk '''') agentStream))"
    "\<forall>b \<in> set refs. length (heap st2) \<le> b \<and> b < length (heap st')"
    "\<exists>new. heap st' = heap st2 @ new"
    "\<not> detected cat (new_AIMessageChunk '''') agentStream \<longrightarrow> refs = []"
    "callsLeft st' = callsLeft st2" "modelCalls st' = modelCalls st2"
    "history st' = map_option (\<lambda>h. h @ a # refs) (history st2)"
  using assms(1)
proof (cases rule: turn_cases)
  case (failed e inputMessages st1)
  with assms(2) show ?thesis by simp
next
  case (answered inputMessages st1 agentStream st2 agentResponse a st4)
  note s = streamChunks_last[OF answered(3)]
  have nd: "\<not> detected cat (new_AIMessageChunk '''') agentStream" using s(2) by simp
  have "tool_calls (foldl cat (new_AIMessageChunk '''') agentStream) = []"
    using not_detected_no_calls[OF nd] by (simp add: new_AIMessageChunk_def)
  with answered s nd show ?thesis
    by (intro that[of inputMessages st1 agentStream st2 a "[]"]) simp_all
next
  case (dispatched inputMessages st1 agentStream st2 agentResponse a st4 refs)
  note s = streamChunks_last[OF dispatched(3)]
  have d: "detected cat (new_AIMessageChunk '''') agentStream" using s(2) by simp
  have h: "heap st' = heap st4 @ runToolCallMessage options agentResponse"
    using dispatched(6) by simp
  have len: "length (runToolCallMessage options agentResponse) = length (tool_calls agentResponse)"
    by (simp add: runToolCallMessage_def)
  have m: "map ((!) (heap st')) refs = runToolCallMessage options agentResponse"
    unfolding h dispatched(4) len[symmetric] by (rule map_nth_appended)
  obtain new where new: "heap st4 = heap st2 @ new" using s(6) by blast
  have r1: "r = (if detected cat (new_AIMessageChunk '''') agentStream \<and>
             \<not> stopToolCalled options (foldl cat (new_AIMessageChunk '''') agentStream)
          then Looping (session @ a # refs) else Stopped (session @ a # refs))"
    using dispatched(5) d s(1) by simp
  have r2: "a < length (heap st')" using s(4) h by simp
  have r3: "heap st' ! a = as_message (foldl cat (new_AIMessageChunk '''') agentStream)"
    using s(4,5,1) h by (simp add: nth_append)
  have r4: "map ((!) (heap st')) refs =
       map (runToolCall options) (tool_calls (foldl cat (new_AIMessageChunk '''') agentStream))"
    using m s(1) by (simp add: runToolCallMessage_def)
  have r5: "\<forall>b \<in> set refs. length (heap st2) \<le> b \<and> b < length (heap st')"
    unfolding dispatched(4) h new by (auto simp: len)
  have r6: "\<exists>new. heap st' = heap st2 @ new" unfolding h new by simp
  have r7: "callsLeft st' = callsLeft st2" "modelCalls st' = modelCalls st2"
    using dispatched(6) s(7,9) by simp_all
  have r8: "history st' = map_option (\<lambda>h. h @ a # refs) (history st2)"
    using dispatched(6) s(8) by (cases "history st2") simp_all
  show ?thesis
    by (rule that[OF dispatched(1,2) r1 s(3) r2 r3 r4 r5 r6 _ r7 r8]) (simp add: d)
qed

lemma turn_not_Threw:
  assumes "turn cat options init input session st = (ys, r, st')"
      and "modelAnswer options init input session st = Inr agentStream"
  shows "\<forall>e. r \<noteq> Threw e"
  using assms(1)
proof (cases rule: turn_cases)
  case (failed e inputMessages st1)
  with assms(2) show ?thesis by (simp add: modelAnswer_def)
next
  case (answered inputMessages st1 agentStream st2 agentResponse a st4)
  then show ?thesis by simp
next
  case (dispatched inputMessages st1 agentStream st2 agentResponse a st4 refs)
  then show ?thesis by simp
qed

lemma answered_turn_does_not_throw:
  "modelAnswer options init input session st = Inr agentStream \<Longrightarrow>
     fst (snd (turn cat options init input session st)) \<noteq> Threw e"
proof -
  assume m: "modelAnswer options init input session st = Inr agentStream"
  obtain ys r st' where t: "turn cat options init input session st = (ys, r, st')"
    by (metis prod_cases3)
  from turn_not_Threw[OF t m] t show ?thesis by simp
qed



section \<open>The loop\<close>



lemma stream_eq:
  "parseModelInputToBaseMessage input st = (ms, st1) \<Longrightarrow>
     stream cat options input st =
       agentLoop cat options (case history st of Some h \<Rightarrow> h | None \<Rightarrow> []) input [] []
         (history_addMessages ms st1)"
  by (simp add: stream_def)






section \<open>Turn order\<close>

lemma runToolCall_is_ToolMessage [simp]: "is_ToolMessage (runToolCall options tc)"
  by (simp add: runToolCall_def createToolResponse_def split: option.splits sum.splits)

lemma turn_ordered_kinds:
  "turn_ordered options ms \<Longrightarrow> \<forall>m \<in> set ms. is_AIMessage m \<or> is_ToolMessage m"
proof (induction options ms rule: turn_ordered.induct)
  case (1 options)
  then show ?case by simp
next
  case (2 options m ms)
  then obtain c tcs where m: "m = AIMessage c tcs" by (cases m) simp_all
  with "2.prems" have t: "take (length tcs) ms = map (runToolCall options) tcs"
    and d: "turn_ordered options (drop (length tcs) ms)" by simp_all
  have "\<forall>x \<in> set (take (length tcs) ms). is_ToolMessage x" unfolding t by simp
  moreover have "\<forall>x \<in> set (drop (length tcs) ms). is_AIMessage x \<or> is_ToolMessage x"
    using "2.IH"[OF m d] .
  moreover have "set ms = set (take (length tcs) ms) \<union> set (drop (length tcs) ms)"
    by (metis append_take_drop_id set_append)
  ultimately show ?case using m by auto
qed

lemma turn_ordered_count:
  assumes "turn_ordered options ms"
  shows "length ms = length (filter is_AIMessage ms) + length (filter is_ToolMessage ms)"
proof -
  have "\<forall>m \<in> set ms. is_AIMessage m \<or> is_ToolMessage m"
    using turn_ordered_kinds[OF assms] .
  then show ?thesis
  proof (induction ms)
    case Nil
    then show ?case by simp
  next
    case (Cons m ms)
    then show ?case by (cases m) auto
  qed
qed

lemma turn_ordered_clean:
  "turn_ordered options ms \<Longrightarrow> turn_ordered options (map cleanMessage ms)"
proof (induction options ms rule: turn_ordered.induct)
  case (1 options)
  then show ?case by simp
next
  case (2 options m ms)
  then obtain c tcs where m: "m = AIMessage c tcs" by (cases m) simp_all
  with "2.prems" have t: "take (length tcs) ms = map (runToolCall options) tcs"
    and d: "turn_ordered options (drop (length tcs) ms)" by simp_all
  have "take (length tcs) (map cleanMessage ms) = map cleanMessage (map (runToolCall options) tcs)"
    by (simp add: take_map t)
  also have "\<dots> = map (runToolCall options) tcs"
    by (simp add: cleanMessage_ToolMessage)
  finally have t': "take (length tcs) (map cleanMessage ms) = map (runToolCall options) tcs" .
  have d': "turn_ordered options (drop (length tcs) (map cleanMessage ms))"
    using "2.IH"[OF m d] by (simp add: drop_map)
  obtain c' where "cleanMessage m = AIMessage c' tcs" using m by (cases c) simp_all
  then show ?case using t' d' by simp
qed

lemma turn_ordered_append:
  "turn_ordered options xs \<Longrightarrow> turn_ordered options ys \<Longrightarrow> turn_ordered options (xs @ ys)"
proof (induction options xs rule: turn_ordered.induct)
  case (1 options)
  then show ?case by simp
next
  case (2 options m ms)
  then obtain c tcs where m: "m = AIMessage c tcs" by (cases m) simp_all
  with "2.prems" have t: "take (length tcs) ms = map (runToolCall options) tcs"
    and d: "turn_ordered options (drop (length tcs) ms)" by simp_all
  from t have len: "length tcs \<le> length ms"
    by (metis length_map length_take min.absorb_iff2 min.cobounded1 nat_le_linear take_all)
  have "turn_ordered options (drop (length tcs) ms @ ys)"
    using "2.IH"[OF m d "2.prems"(2)] .
  then show ?case using m t len by simp
qed

lemma turn_ordered_block:
  "turn_ordered options (AIMessage c tcs # map (runToolCall options) tcs)"
  by simp

lemma turn_session:
  assumes t: "turn cat options init input session st = (ys, r, st')"
      and r: "r = Stopped session' \<or> r = Looping session'"
      and ok: "session_ok options session st"
  shows "session_ok options session' st' \<and>
         (\<exists>a refs. session' = session @ a # refs \<and> is_AIMessage (heap st' ! a) \<and>
            map ((!) (heap st')) refs =
              map (runToolCall options) (message_tool_calls (heap st' ! a)))"
proof -
  from r have nt: "\<forall>e. r \<noteq> Threw e" by auto
  from t nt show ?thesis
  proof (cases rule: turn_effect)
    case (1 inputMessages st1 agentStream st2 a refs)
    let ?acc = "foldl cat (new_AIMessageChunk '''') agentStream"
    let ?msgs = "init @ inputMessages @ session"
    from 1(3) r have s': "session' = session @ a # refs" by (auto split: if_splits)
    obtain new0 where h1: "heap st1 = heap st @ new0" using parse_fields[OF 1(1)] by blast
    have h2: "heap st2 = cleaned_heap ?msgs (heap st1)"
      by (cases rule: runToolCallingAgent_cases[of st1 options ?msgs]) (use 1(2) in auto)
    obtain new where h': "heap st' = heap st2 @ new" using 1(9) by blast
    have old: "heap st' ! b = cleanMessage (heap st ! b)" if "b \<in> set session" for b
    proof -
      from that ok have b: "b < length (heap st)" by (simp add: session_ok_def)
      then have "b < length (heap st1)" by (simp add: h1)
      then have "heap st2 ! b = cleanMessage (heap st1 ! b)"
        unfolding h2 using that by (simp add: nth_cleaned_heap)
      moreover have "heap st' ! b = heap st2 ! b"
        using b by (simp add: h' h2 h1 nth_append)
      moreover have "heap st1 ! b = heap st ! b" using b by (simp add: h1 nth_append)
      ultimately show ?thesis by simp
    qed
    then have m_old: "map ((!) (heap st')) session = map cleanMessage (map ((!) (heap st)) session)"
      by simp
    have ai: "heap st' ! a = AIMessage (content ?acc) (tool_calls ?acc)"
      using 1(6) by (simp add: as_message_def)
    have vals: "map ((!) (heap st')) session' =
        map cleanMessage (map ((!) (heap st)) session)
          @ (AIMessage (content ?acc) (tool_calls ?acc) # map (runToolCall options) (tool_calls ?acc))"
      unfolding s' using m_old ai 1(7) by simp
    have ord: "turn_ordered options (map ((!) (heap st')) session')"
      unfolding vals
      by (intro turn_ordered_append turn_ordered_clean turn_ordered_block)
         (use ok in \<open>simp add: session_ok_def\<close>)
    have valid: "\<forall>b \<in> set session'. b < length (heap st')"
    proof
      fix b assume "b \<in> set session'"
      then consider "b \<in> set session" | "b = a" | "b \<in> set refs" unfolding s' by auto
      then show "b < length (heap st')"
      proof cases
        case 1
        with ok have "b < length (heap st)" by (simp add: session_ok_def)
        then show ?thesis by (simp add: h' h2 h1)
      next
        case 2
        then show ?thesis using \<open>a < length (heap st')\<close> by simp
      next
        case 3
        then show ?thesis using \<open>\<forall>b \<in> set refs. length (heap st2) \<le> b \<and> b < length (heap st')\<close>
          by simp
      qed
    qed
    have "is_AIMessage (heap st' ! a)" using ai by simp
    moreover have "map ((!) (heap st')) refs =
              map (runToolCall options) (message_tool_calls (heap st' ! a))"
      using 1(7) ai by simp
    ultimately show ?thesis using s' ord valid unfolding session_ok_def by blast
  qed
qed

lemma sessionAfter_ok:
  "sessionAfter cat options init input st0 n = Some (session, st) \<Longrightarrow>
     session_ok options session st"
proof (induction n arbitrary: session st)
  case 0
  then show ?case by (simp add: session_ok_def)
next
  case (Suc n)
  from Suc.prems obtain s0 st0' ys where
    prev: "sessionAfter cat options init input st0 n = Some (s0, st0')"
    and t: "turn cat options init input s0 st0' = (ys, Looping session, st)"
    by (auto split: option.splits prod.splits step.splits)
  from turn_session[OF t _ Suc.IH[OF prev]] show ?case by simp
qed

lemma agentLoop_sessionAfter:
  "sessionAfter cat options init input st0 n = Some (session, st) \<Longrightarrow>
     \<exists>ys. agentLoop cat options init input [] [] st0 =
           agentLoop cat options init input session ys st"
proof (induction n arbitrary: session st)
  case 0
  then show ?case by auto
next
  case (Suc n)
  from Suc.prems obtain s0 st0' ys where
    prev: "sessionAfter cat options init input st0 n = Some (s0, st0')"
    and t: "turn cat options init input s0 st0' = (ys, Looping session, st)"
    by (auto split: option.splits prod.splits step.splits)
  from Suc.IH[OF prev] obtain ys0 where
    "agentLoop cat options init input [] [] st0 = agentLoop cat options init input s0 ys0 st0'"
    by blast
  also have "\<dots> = agentLoop cat options init input session (ys0 @ ys) st"
    using t by (subst agentLoop.simps) simp
  finally show ?case by blast
qed

lemma agentLoop_session_ok:
  assumes "agentLoop cat options init input session yielded st = Some res"
      and "session_ok options session st"
  shows "\<forall>s. fst (snd res) = Inr s \<longrightarrow> session_ok options s (snd (snd res))"
  using assms
proof (induction rule: agentLoop.raw_induct [rotated 1, consumes 1])
  case (1 loop cat options init input session yielded st res)
  obtain ys r st' where t: "turn cat options init input session st = (ys, r, st')"
    by (metis prod_cases3)
  show ?case
  proof (cases r)
    case (Threw e)
    with 1(2) t have "res = (yielded @ ys, Inl e, st')" by simp
    then show ?thesis by simp
  next
    case (Stopped s)
    with 1(2) t have res: "res = (yielded @ ys, Inr s, st')" by simp
    from turn_session[OF t _ 1(3), of s] Stopped have "session_ok options s st'" by simp
    then show ?thesis unfolding res by simp
  next
    case (Looping s)
    with 1(2) t have l: "loop cat options init input s (yielded @ ys) st' = Some res" by simp
    from turn_session[OF t _ 1(3), of s] Looping have "session_ok options s st'" by simp
    from 1(1)[OF l this] show ?thesis .
  qed
qed

lemma stream_result_ordered:
  assumes "stream cat options input st = Some (ys, Inr session, st')"
  shows "turn_ordered options (map ((!) (heap st')) session)"
proof -
  obtain ms st1 where p: "parseModelInputToBaseMessage input st = (ms, st1)" by fastforce
  from assms have "agentLoop cat options (case history st of Some h \<Rightarrow> h | None \<Rightarrow> []) input [] []
         (history_addMessages ms st1) = Some (ys, Inr session, st')"
    unfolding stream_eq[OF p] .
  from agentLoop_session_ok[OF this] have "session_ok options session st'"
    by (simp add: session_ok_def)
  then show ?thesis by (simp add: session_ok_def)
qed


section \<open>Resolving and invoking a tool\<close>


lemma findTool_None_iff:
  "findTool options tool_call = None \<longleftrightarrow>
     (\<forall>t \<in> set (configuredTools options). name t \<noteq> call_name tool_call)"
  by (auto simp: findTool_def configuredTools_def find_None_iff)


section \<open>The turn budget\<close>






section \<open>What invoke returns\<close>

text \<open>
  Claim C2. The generator yields only inside the loop over the fragments; after the tool
  results are appended nothing is yielded, and the session history the generator returns
  is not an element of the stream. With the stop tool called in the first turn, the stream
  has the one snapshot \<open>[3]\<close> (the AI message), the generator returns the session history
  \<open>[3, 4, 5]\<close> whose last two messages are the tool results, and \<open>invoke\<close> returns
  \<open>[3]\<close>: the results of the terminating turn are not in it.
\<close>

theorem invoke_omits_stop_turn_results:
  "map_option (\<lambda>(ys, r, st'). (ys, r, map is_ToolMessage (heap st')))
     (stream concat_reparsed stopping (StringInput ''go'') (new_RunnableAgent stopping [] None))
     = Some ([[3]], Inr [3, 4, 5], [False, False, False, False, True, True]) \<and>
   map_option fst (invoke concat_reparsed stopping ''go'' (new_RunnableAgent stopping [] None))
     = Some (Inr [3])"
  by (simp add: agentLoop.simps stopping_def loop_defs example_defs)


section \<open>When the loop ends\<close>

text \<open>
  Claim C3, as amended. In a turn whose model call succeeds, the loop ends after the turn
  if and only if the flag is unset (no message accumulated during the turn had a tool
  call) or the stop tool is configured and a tool call of the completed message names it;
  otherwise it goes round. In both cases the completed AI message is appended and then
  the results of all its tool calls, in order; with the flag unset the message has no tool
  call and is the last entry. The turn makes the one call of the model and no other.
\<close>

theorem turn_termination_rule:
  assumes "turn cat options init input session st = (ys, r, st')"
      and "modelAnswer options init input session st = Inr agentStream"
  shows "((\<exists>s. r = Stopped s) \<longleftrightarrow>
            (\<not> detected cat (new_AIMessageChunk '''') agentStream \<or>
             stopToolCalled options (foldl cat (new_AIMessageChunk '''') agentStream))) \<and>
         ((\<exists>s. r = Looping s) \<longleftrightarrow>
            (detected cat (new_AIMessageChunk '''') agentStream \<and>
             \<not> stopToolCalled options (foldl cat (new_AIMessageChunk '''') agentStream))) \<and>
         (\<exists>a refs. (r = Stopped (session @ a # refs) \<or> r = Looping (session @ a # refs)) \<and>
            heap st' ! a = as_message (foldl cat (new_AIMessageChunk '''') agentStream) \<and>
            map ((!) (heap st')) refs =
              runToolCallMessage options (foldl cat (new_AIMessageChunk '''') agentStream) \<and>
            (\<not> detected cat (new_AIMessageChunk '''') agentStream \<longrightarrow>
               refs = [] \<and> tool_calls (foldl cat (new_AIMessageChunk '''') agentStream) = [])) \<and>
         length (modelCalls st') = Suc (length (modelCalls st))"
proof -
  from turn_not_Threw[OF assms] have nt: "\<forall>e. r \<noteq> Threw e" .
  from assms(1) nt show ?thesis
  proof (cases rule: turn_effect)
    case (1 inputMessages st1 agentStream' st2 a refs)
    from 1(1,2) assms(2) have eq: "agentStream' = agentStream"
      by (simp add: modelAnswer_def)
    note e = 1[unfolded eq]
    let ?acc = "foldl cat (new_AIMessageChunk '''') agentStream"
    let ?d = "detected cat (new_AIMessageChunk '''') agentStream"
    have nc: "\<not> ?d \<longrightarrow> tool_calls ?acc = []"
      using not_detected_no_calls[of cat "new_AIMessageChunk ''''" agentStream]
      by (simp add: new_AIMessageChunk_def)
    have rs: "(\<exists>s. r = Stopped s) \<longleftrightarrow> (\<not> ?d \<or> stopToolCalled options ?acc)"
      and rl: "(\<exists>s. r = Looping s) \<longleftrightarrow> (?d \<and> \<not> stopToolCalled options ?acc)"
      using e(3) by auto
    have shape: "\<exists>a refs. (r = Stopped (session @ a # refs) \<or> r = Looping (session @ a # refs)) \<and>
            heap st' ! a = as_message ?acc \<and>
            map ((!) (heap st')) refs = runToolCallMessage options ?acc \<and>
            (\<not> ?d \<longrightarrow> refs = [] \<and> tool_calls ?acc = [])"
      using e(3,6,7,10) nc by (intro exI[of _ a] exI[of _ refs]) (auto simp: runToolCallMessage_def)
    have calls: "length (modelCalls st') = Suc (length (modelCalls st))"
    proof -
      from parse_fields[OF e(1)] have "modelCalls st1 = modelCalls st" by simp
      moreover have "length (modelCalls st2) = Suc (length (modelCalls st1))"
        by (cases rule: runToolCallingAgent_cases[of st1 options "init @ inputMessages @ session"])
           (use e(2) in auto)
      ultimately show ?thesis using e(12) by simp
    qed
    from rs rl shape calls show ?thesis by blast
  qed
qed

text \<open>
  The first turn of an agent whose model calls \<open>echo\<close> and the stop tool together: the
  flag is set, the stop tool is named, and the loop ends with the AI message and both
  results in the session history.
\<close>

theorem turn_termination_rule_witness:
  "\<exists>ys r st'. turn concat_reparsed stopping [] (StringInput ''go'') []
        (new_RunnableAgent stopping [] None) = (ys, r, st') \<and>
     modelAnswer stopping [] (StringInput ''go'') [] (new_RunnableAgent stopping [] None)
       = Inr [call_fragment [echo_call, stop_call]] \<and>
     r = Stopped [2, 3, 4] \<and>
     detected concat_reparsed (new_AIMessageChunk '''') [call_fragment [echo_call, stop_call]] \<and>
     stopToolCalled stopping
       (foldl concat_reparsed (new_AIMessageChunk '''') [call_fragment [echo_call, stop_call]])"
proof -
  obtain ys r st' where t: "turn concat_reparsed stopping [] (StringInput ''go'') []
        (new_RunnableAgent stopping [] None) = (ys, r, st')" by (metis prod_cases3)
  have m: "modelAnswer stopping [] (StringInput ''go'') [] (new_RunnableAgent stopping [] None)
       = Inr [call_fragment [echo_call, stop_call]]"
    by (simp add: modelAnswer_def stopping_def loop_defs example_defs)
  have "fst (snd (turn concat_reparsed stopping [] (StringInput ''go'') []
        (new_RunnableAgent stopping [] None))) = Stopped [2, 3, 4]"
    by (simp add: stopping_def loop_defs example_defs)
  with t have r: "r = Stopped [2, 3, 4]" by simp
  have d: "detected concat_reparsed (new_AIMessageChunk '''') [call_fragment [echo_call, stop_call]]"
    by (simp add: loop_defs example_defs)
  from turn_termination_rule[OF t m] r d t m show ?thesis by auto
qed

text \<open>
  Claim C3 as stated fails where the flag was set by an earlier fragment and the completed
  message has no tool call: no stop tool is configured, the completed AI message (at
  address 3) carries zero tool calls, and the loop goes round for another model turn.
\<close>

theorem empty_tool_calls_counterexample:
  "fst (snd (turn concat_reparsed flickering [] (StringInput ''hi'') []
               (new_RunnableAgent flickering [] None))) = Looping [3] \<and>
   message_tool_calls
     (heap (snd (snd (turn concat_reparsed flickering [] (StringInput ''hi'') []
                        (new_RunnableAgent flickering [] None)))) ! 3) = [] \<and>
   tool_response flickering = None"
  by (simp add: flickering_def loop_defs example_defs)


section \<open>The tool dispatcher\<close>



text \<open>
  Claim C5, as amended. For a call whose name is the name of no configured tool (the stop
  tool included), the dispatcher's message has status \<open>error\<close>, the call's name and id,
  and as content the serialisation of the object with the members \<open>type\<close>, which is
  \<open>text\<close>, and \<open>text\<close>, which is the serialisation (a string) of the object
  \<open>{success: false, error: 'Tool "<name>" was not found.'}\<close>. No tool is invoked for
  it: an agent with no tool at all gives the same message. A turn whose model call
  succeeded does not throw, whatever its tool calls are.
\<close>

theorem unknown_tool_result:
  assumes "\<forall>t \<in> set (configuredTools options). name t \<noteq> call_name tool_call"
  shows "runToolCall options tool_call =
           ToolMessage
             (JSON_stringify (JObject [(''type'', JString ''text''),
                (''text'', JString (JSON_stringify (JObject [(''success'', JBool False),
                    (''error'', JString (''Tool '' @ [CHR 0x22] @ call_name tool_call @ [CHR 0x22]
                                          @ '' was not found.''))])))]))
             (call_name tool_call) (case call_id tool_call of None \<Rightarrow> '''' | Some c \<Rightarrow> c)
             StatusError \<and>
         (\<forall>other. tools other = [] \<and> tool_response other = None \<longrightarrow>
            runToolCall other tool_call = runToolCall options tool_call) \<and>
         (\<forall>cat init input session (st::AgentState) agentStream e.
            modelAnswer options init input session st = Inr agentStream \<longrightarrow>
            fst (snd (turn cat options init input session st)) \<noteq> Threw e)"
proof -
  from assms have n: "findTool options tool_call = None"
    by (simp add: findTool_None_iff)
  have "\<And>other. tools other = [] \<and> tool_response other = None \<Longrightarrow>
          findTool other tool_call = None"
    by (simp add: findTool_def)
  with n show ?thesis
    by (auto simp: runToolCall_def createToolResponse_def not_found_text_def
          answered_turn_does_not_throw)
qed

theorem unknown_tool_result_witness:
  "list_all (\<lambda>t. name t \<noteq> call_name unknown_call) (configuredTools dispatching) \<and>
   tm_status (runToolCall dispatching unknown_call) = StatusError \<and>
   tm_name (runToolCall dispatching unknown_call) = ''nope'' \<and>
   tm_tool_call_id (runToolCall dispatching unknown_call) = ''call_4'' \<and>
   tm_content (runToolCall dispatching unknown_call) =
     JSON_stringify (JObject [(''type'', JString ''text''),
        (''text'', JString (JSON_stringify (JObject [(''success'', JBool False),
            (''error'', JString (''Tool '' @ [CHR 0x22] @ ''nope'' @ [CHR 0x22]
                                  @ '' was not found.''))])))])"
proof -
  have h: "\<forall>t \<in> set (configuredTools dispatching). name t \<noteq> call_name unknown_call"
    by (simp add: configuredTools_def dispatching_def example_defs)
  from unknown_tool_result[OF h] h show ?thesis
    by (simp add: list_all_iff unknown_call_def)
qed

text \<open>
  Claim C5 as stated fails on the content: it is not the serialisation of
  \<open>{success: false, error: ...}\<close> itself but of the object that wraps that
  serialisation as its \<open>text\<close>.
\<close>

theorem unknown_tool_content_counterexample:
  "tm_content (runToolCall dispatching unknown_call)
     \<noteq> JSON_stringify (JObject [(''success'', JBool False),
          (''error'', JString (''Tool '' @ [CHR 0x22] @ ''nope'' @ [CHR 0x22] @ '' was not found.''))])"
  by (simp add: dispatching_def runToolCall_def findTool_def createToolResponse_def
        not_found_text_def quote_def quote_char_def example_defs)




section \<open>The snapshots of a streamed turn\<close>




section \<open>The counter across invocations\<close>






section \<open>The session history\<close>

text \<open>
  Claim C9. Take any run of the loop from the empty session history and any turn of it
  that completes (it leaves the loop or goes round); the loop started from the empty
  session history does pass through the state in which that turn starts. The session
  history after the turn is the one before it followed by the turn's AI message and then
  the results of that message's tool calls, in their order, so its length does not
  decrease. Every message of it is an AI message or a tool-result message, its length is
  the number of the former plus the number of the latter, and it is in turn order: each AI
  message is followed by exactly its own results, and these by the next turn's AI message.
  The session history that the generator of a stream returns is in turn order as well.
\<close>

theorem session_history_in_turn_order:
  assumes "completedTurn cat options init input st0 n = Some (session, session', st')"
  shows "length session \<le> length session' \<and>
         (\<exists>a refs. session' = session @ a # refs \<and> is_AIMessage (heap st' ! a) \<and>
            map ((!) (heap st')) refs =
              map (runToolCall options) (message_tool_calls (heap st' ! a))) \<and>
         length session' =
           length (filter is_AIMessage (map ((!) (heap st')) session')) +
           length (filter is_ToolMessage (map ((!) (heap st')) session')) \<and>
         turn_ordered options (map ((!) (heap st')) session') \<and>
         (\<exists>st ys0. sessionAfter cat options init input st0 n = Some (session, st) \<and>
            agentLoop cat options init input [] [] st0 =
              agentLoop cat options init input session ys0 st) \<and>
         (\<forall>input1 (st1::AgentState) ys s st2.
            stream cat options input1 st1 = Some (ys, Inr s, st2) \<longrightarrow>
              turn_ordered options (map ((!) (heap st2)) s))"
proof -
  from assms obtain st ys r where
    prev: "sessionAfter cat options init input st0 n = Some (session, st)"
    and t: "turn cat options init input session st = (ys, r, st')"
    and r: "r = Stopped session' \<or> r = Looping session'"
    by (auto simp: completedTurn_def split: option.splits prod.splits step.splits)
  from turn_session[OF t r sessionAfter_ok[OF prev]]
  have ok: "session_ok options session' st'"
    and shape: "\<exists>a refs. session' = session @ a # refs \<and> is_AIMessage (heap st' ! a) \<and>
            map ((!) (heap st')) refs =
              map (runToolCall options) (message_tool_calls (heap st' ! a))"
    by simp_all
  from ok have ord: "turn_ordered options (map ((!) (heap st')) session')"
    by (simp add: session_ok_def)
  from shape have len: "length session \<le> length session'" by auto
  have cnt: "length session' =
           length (filter is_AIMessage (map ((!) (heap st')) session')) +
           length (filter is_ToolMessage (map ((!) (heap st')) session'))"
    using turn_ordered_count[OF ord] by simp
  have run: "\<exists>st ys0. sessionAfter cat options init input st0 n = Some (session, st) \<and>
            agentLoop cat options init input [] [] st0 =
              agentLoop cat options init input session ys0 st"
    using prev agentLoop_sessionAfter[OF prev] by blast
  have fin: "\<forall>input1 (st1::AgentState) ys s st2.
            stream cat options input1 st1 = Some (ys, Inr s, st2) \<longrightarrow>
              turn_ordered options (map ((!) (heap st2)) s)"
    using stream_result_ordered by blast
  from len shape cnt ord run fin show ?thesis by - (intro conjI, assumption+)
qed

text \<open>
  The second turn of a run whose first turn called \<open>echo\<close>: the session history grows
  from the AI message and its result to these two and the final AI message.
\<close>

theorem session_history_in_turn_order_witness:
  "\<exists>st'. completedTurn concat_reparsed two_turns [] (StringInput ''hi'')
            (new_RunnableAgent two_turns [] None) (Suc 0)
      = Some ([2, 3], [2, 3, 6], st') \<and>
     map ((!) (heap st')) [2, 3, 6] =
       [AIMessage (StringContent '''') [echo_call], runToolCall two_turns echo_call,
        AIMessage (StringContent ''done'') []] \<and>
     turn_ordered two_turns (map ((!) (heap st')) [2, 3, 6])"
proof -
  have "map_option (\<lambda>(s, s', st'). (s, s', map ((!) (heap st')) [2, 3, 6]))
      (completedTurn concat_reparsed two_turns [] (StringInput ''hi'')
         (new_RunnableAgent two_turns [] None) (Suc 0))
     = Some ([2, 3], [2, 3, 6], [AIMessage (StringContent '''') [echo_call],
          runToolCall two_turns echo_call, AIMessage (StringContent ''done'') []])"
    by (simp add: completedTurn_def two_turns_def loop_defs example_defs)
  then obtain st' where c: "completedTurn concat_reparsed two_turns [] (StringInput ''hi'')
       (new_RunnableAgent two_turns [] None) (Suc 0) = Some ([2, 3], [2, 3, 6], st')"
    and v: "map ((!) (heap st')) [2, 3, 6] =
       [AIMessage (StringContent '''') [echo_call], runToolCall two_turns echo_call,
        AIMessage (StringContent ''done'') []]"
    by (cases "completedTurn concat_reparsed two_turns [] (StringInput ''hi'')
         (new_RunnableAgent two_turns [] None) (Suc 0)") auto
  from session_history_in_turn_order[OF c]
  have "turn_ordered two_turns (map ((!) (heap st')) [2, 3, 6])" by simp
  with c v show ?thesis by (intro exI[of _ st']) simp
qed


section \<open>The list given to the model\<close>



end
